theory Spec2Isabelle
  imports Complex_Main "HOL-Library.Multiset"
begin

section \<open>Numbers\<close>

text \<open>
  The notebook computes with IEEE-754 binary64 values: Python's built-in floats and
  NumPy's float64. A value is a finite number \<open>Fin x\<close> (with \<open>Fin 0\<close> the positive
  zero), the negative zero, an infinity or NaN. Every arithmetic operation returns
  the exact result rounded to the nearest binary64 value, ties to the even
  mantissa, with gradual underflow and overflow to an infinity, under NumPy's
  default error state (a division by zero or an invalid operation warns and
  returns an infinity or NaN, it does not raise).
\<close>

datatype fval = Fin real | NegZero | PInf | NInf | NaN

fun is_nan :: "fval \<Rightarrow> bool" where
  "is_nan NaN = True"
| "is_nan _ = False"

fun is_inf :: "fval \<Rightarrow> bool" where
  "is_inf PInf = True"
| "is_inf NInf = True"
| "is_inf _ = False"

fun is_zero :: "fval \<Rightarrow> bool" where
  "is_zero (Fin x) = (x = 0)"
| "is_zero NegZero = True"
| "is_zero _ = False"

text \<open>The sign bit (of a value that is not NaN).\<close>

fun sign_bit :: "fval \<Rightarrow> bool" where
  "sign_bit (Fin x) = (x < 0)"
| "sign_bit NegZero = True"
| "sign_bit NInf = True"
| "sign_bit _ = False"

text \<open>The real number a finite value stands for.\<close>

fun rv :: "fval \<Rightarrow> real" where
  "rv (Fin x) = x"
| "rv _ = 0"

definition zero_of :: "bool \<Rightarrow> fval" where
  "zero_of neg = (if neg then NegZero else Fin 0)"

definition inf_of :: "bool \<Rightarrow> fval" where
  "inf_of neg = (if neg then NInf else PInf)"

subsection \<open>Rounding to binary64\<close>

text \<open>
  The binary exponent of a positive number \<open>a\<close>, that is the \<open>e\<close> with
  \<open>2 ^ e \<le> a < 2 ^ (e + 1)\<close>, found by halving or doubling at most 1100 times
  (enough between the smallest subnormal and the overflow threshold).
\<close>

fun halvings :: "nat \<Rightarrow> real \<Rightarrow> int \<Rightarrow> int" where
  "halvings 0 a e = e"
| "halvings (Suc k) a e = (if a < 2 then e else halvings k (a / 2) (e + 1))"

fun doublings :: "nat \<Rightarrow> real \<Rightarrow> int \<Rightarrow> int" where
  "doublings 0 a e = e"
| "doublings (Suc k) a e = (if 1 \<le> a then e else doublings k (a * 2) (e - 1))"

definition binary_exponent :: "real \<Rightarrow> int" where
  "binary_exponent a = (if 1 \<le> a then halvings 1100 a 0 else doublings 1100 a 0)"

text \<open>The integer nearest to \<open>m\<close>, the even one of the two when \<open>m\<close> is half way.\<close>

definition nearest_even :: "real \<Rightarrow> int \<Rightarrow> int" where
  "nearest_even m f =
     (if m - of_int f < 1 / 2 then f
      else if 1 / 2 < m - of_int f then f + 1
      else if even f then f else f + 1)"

definition round_half_even :: "real \<Rightarrow> int" where
  "round_half_even m = nearest_even m \<lfloor>m\<rfloor>"

definition signed_result :: "bool \<Rightarrow> real \<Rightarrow> fval" where
  "signed_result neg r = (if 2 ^ 1024 \<le> r then inf_of neg else Fin (if neg then - r else r))"

text \<open>Rounding to a multiple of the quantum \<open>q\<close> (the unit in the last place).\<close>

definition round_to_quantum :: "real \<Rightarrow> real \<Rightarrow> fval" where
  "round_to_quantum x q = signed_result (x < 0) (of_int (round_half_even (\<bar>x\<bar> / q)) * q)"

text \<open>
  Rounding a real number to binary64: 53 bits of mantissa, exponents from -1022
  (below which the quantum stays \<open>2 ^ -1074\<close>) to 1023.
\<close>

definition round64 :: "real \<Rightarrow> fval" where
  "round64 x =
     (if x = 0 then Fin 0
      else if 2 ^ 1024 \<le> \<bar>x\<bar> then inf_of (x < 0)
      else if \<bar>x\<bar> \<le> 1 / 2 ^ 1075 then zero_of (x < 0)
      else round_to_quantum x (2 powi (max (binary_exponent \<bar>x\<bar>) (- 1022) - 52)))"

subsection \<open>Arithmetic\<close>

fun fneg :: "fval \<Rightarrow> fval" where
  "fneg (Fin x) = (if x = 0 then NegZero else Fin (- x))"
| "fneg NegZero = Fin 0"
| "fneg PInf = NInf"
| "fneg NInf = PInf"
| "fneg NaN = NaN"

definition fadd :: "fval \<Rightarrow> fval \<Rightarrow> fval" where
  "fadd a b =
     (if is_nan a \<or> is_nan b then NaN
      else if is_inf a \<and> is_inf b then (if sign_bit a = sign_bit b then a else NaN)
      else if is_inf a then a
      else if is_inf b then b
      else if is_zero a \<and> is_zero b then zero_of (sign_bit a \<and> sign_bit b)
      else round64 (rv a + rv b))"

definition fsub :: "fval \<Rightarrow> fval \<Rightarrow> fval" where
  "fsub a b = fadd a (fneg b)"

definition fmul :: "fval \<Rightarrow> fval \<Rightarrow> fval" where
  "fmul a b =
     (if is_nan a \<or> is_nan b then NaN
      else if (is_inf a \<and> is_zero b) \<or> (is_zero a \<and> is_inf b) then NaN
      else if is_inf a \<or> is_inf b then inf_of (sign_bit a \<noteq> sign_bit b)
      else if is_zero a \<or> is_zero b then zero_of (sign_bit a \<noteq> sign_bit b)
      else round64 (rv a * rv b))"

definition fdiv :: "fval \<Rightarrow> fval \<Rightarrow> fval" where
  "fdiv a b =
     (if is_nan a \<or> is_nan b then NaN
      else if (is_inf a \<and> is_inf b) \<or> (is_zero a \<and> is_zero b) then NaN
      else if is_inf a \<or> is_zero b then inf_of (sign_bit a \<noteq> sign_bit b)
      else if is_zero a \<or> is_inf b then zero_of (sign_bit a \<noteq> sign_bit b)
      else round64 (rv a / rv b))"

text \<open>The comparison \<open>a <= b\<close>: false as soon as one side is NaN.\<close>

definition fle :: "fval \<Rightarrow> fval \<Rightarrow> bool" where
  "fle a b =
     (if is_nan a \<or> is_nan b then False
      else if a = NInf \<or> b = PInf then True
      else if a = PInf \<or> b = NInf then False
      else rv a \<le> rv b)"


text \<open>A float that is a whole number (the two zeros included).\<close>

fun is_integer_valued :: "fval \<Rightarrow> bool" where
  "is_integer_valued (Fin x) = (of_int \<lfloor>x\<rfloor> = x)"
| "is_integer_valued NegZero = True"
| "is_integer_valued _ = False"

text \<open>\<open>np.ceil\<close>: the special values are returned as they are, and a value in
  \<open>(-1, 0)\<close> gives the negative zero. The ceiling of a binary64 value is one, so
  nothing is rounded.\<close>

fun np_ceil :: "fval \<Rightarrow> fval" where
  "np_ceil (Fin x) = (if x < 0 \<and> - 1 < x then NegZero else Fin (of_int \<lceil>x\<rceil>))"
| "np_ceil v = v"

text \<open>\<open>np.power(x, 2)\<close> of a float64: NumPy multiplies \<open>x\<close> by itself for the
  exponent 2.\<close>

definition np_power2 :: "fval \<Rightarrow> fval" where
  "np_power2 x = fmul x x"

text \<open>\<open>np.sqrt\<close>: NaN for a negative argument, the zeros and \<open>+inf\<close> unchanged, the
  rounded square root otherwise.\<close>

fun np_sqrt :: "fval \<Rightarrow> fval" where
  "np_sqrt (Fin x) = (if x < 0 then NaN else round64 (sqrt x))"
| "np_sqrt NegZero = NegZero"
| "np_sqrt PInf = PInf"
| "np_sqrt NInf = NaN"
| "np_sqrt NaN = NaN"

subsection \<open>Summation\<close>

text \<open>
  \<open>np.sum\<close> of a one-dimensional float64 array is NumPy's pairwise summation. Fewer
  than 8 elements are added from left to right, starting from the negative zero.
  Up to 128 elements are added into 8 accumulators, one block of 8 after the other;
  the accumulators are added as a tree, and the elements left over are added one
  by one. A longer array is split near its middle, at a multiple of 8. The empty
  array gives 0.0.
\<close>

function block_accumulate :: "fval list \<Rightarrow> fval list \<Rightarrow> fval list" where
  "block_accumulate r xs =
     (if length xs < 8 then r else block_accumulate (map2 fadd r (take 8 xs)) (drop 8 xs))"
  by pat_completeness auto
termination
  by (relation "measure (\<lambda>(r, xs). length xs)") auto

definition accumulator_tree :: "fval list \<Rightarrow> fval" where
  "accumulator_tree r =
     fadd (fadd (fadd (r ! 0) (r ! 1)) (fadd (r ! 2) (r ! 3)))
          (fadd (fadd (r ! 4) (r ! 5)) (fadd (r ! 6) (r ! 7)))"

function pairwise_sum :: "fval list \<Rightarrow> fval" where
  "pairwise_sum xs =
     (if length xs < 8 then foldl fadd NegZero xs
      else if length xs \<le> 128 then
        foldl fadd
          (accumulator_tree
             (block_accumulate (take 8 xs) (drop 8 (take (length xs - length xs mod 8) xs))))
          (drop (length xs - length xs mod 8) xs)
      else
        fadd (pairwise_sum (take (length xs div 2 - (length xs div 2) mod 8) xs))
             (pairwise_sum (drop (length xs div 2 - (length xs div 2) mod 8) xs)))"
  by pat_completeness auto
termination
  by (relation "measure length") auto

declare block_accumulate.simps [simp del] pairwise_sum.simps [simp del]

definition np_sum :: "fval list \<Rightarrow> fval" where
  "np_sum xs = (if xs = [] then Fin 0 else pairwise_sum xs)"

subsection \<open>Python and NumPy scalars\<close>

text \<open>
  An element of an argument sequence is a built-in Python float (\<open>Py x\<close>, the
  float that the literal \<open>x\<close> denotes: the binary64 value nearest to \<open>x\<close>) or a
  NumPy float64 (\<open>Np\<close>). The difference shows in the true division only: Python
  raises ZeroDivisionError when both operands are built-in floats and the divisor
  is zero, NumPy takes over as soon as one operand is a NumPy scalar. Integer
  arguments, which NumPy processes with its int64 arithmetic, are not modelled.
\<close>

datatype scalar = Py real | Np fval

fun val :: "scalar \<Rightarrow> fval" where
  "val (Py x) = round64 x"
| "val (Np v) = v"

datatype error =
    ZeroDivisionError
  | IndexError
  | ValueError
  | AssertionError string

fun true_div :: "scalar \<Rightarrow> scalar \<Rightarrow> error + fval" where
  "true_div (Py x) (Py y) =
     (if is_zero (round64 y) then Inl ZeroDivisionError
      else Inr (fdiv (round64 x) (round64 y)))"
| "true_div a b = Inr (fdiv (val a) (val b))"


section \<open>Generalised Welch-Satterthwaite equation\<close>

text \<open>
  The loop of \<open>generalised_welch_satterthwaite\<close> over \<open>range(0, len(s_squared), 1)\<close>,
  with the two accumulators as arguments. Reading \<open>n[i]\<close> beyond the end of \<open>n\<close>
  raises IndexError; entries of \<open>n\<close> beyond the length of \<open>s_squared\<close> are never read.
\<close>

fun gws_loop :: "scalar list \<Rightarrow> scalar list \<Rightarrow> fval \<Rightarrow> fval \<Rightarrow> error + (fval \<times> fval)" where
  "gws_loop [] n numerator_acc denominator = Inr (numerator_acc, denominator)"
| "gws_loop (s # ss) [] numerator_acc denominator = Inl IndexError"
| "gws_loop (s # ss) (m # ms) numerator_acc denominator =
     (case true_div s m of
        Inl e \<Rightarrow> Inl e
      | Inr q \<Rightarrow>
          gws_loop ss ms (fadd numerator_acc q)
            (fadd denominator
               (fdiv (np_power2 (val s))
                     (fmul (fmul (fsub (val m) (Fin 1)) (val m)) (val m)))))"

definition generalised_welch_satterthwaite :: "scalar list \<Rightarrow> scalar list \<Rightarrow> error + fval" where
  "generalised_welch_satterthwaite s_squared n =
     (case gws_loop s_squared n (Fin 0) (Fin 0) of
        Inl e \<Rightarrow> Inl e
      | Inr (numerator_acc, denominator) \<Rightarrow> Inr (fdiv (np_power2 numerator_acc) denominator))"

section \<open>The external quantile functions\<close>

text \<open>
  \<open>scipy.stats.norm.ppf\<close> and \<open>scipy.stats.t.ppf\<close> are not part of the
  repository; every function that calls them takes them as a parameter. They
  take and return floats.
\<close>

record scipy_stats =
  norm_ppf :: "fval \<Rightarrow> fval"
  t_ppf :: "fval \<Rightarrow> fval \<Rightarrow> fval"

text \<open>The float \<open>1 - p\<close> for a built-in float \<open>p\<close>.\<close>

definition one_minus :: "real \<Rightarrow> fval" where
  "one_minus p = fsub (Fin 1) (round64 p)"

definition norm_quantile_diff :: "scipy_stats \<Rightarrow> real \<Rightarrow> real \<Rightarrow> fval" where
  "norm_quantile_diff st significance_level min_power =
     np_power2 (fsub (norm_ppf st (one_minus significance_level))
                     (norm_ppf st (one_minus min_power)))"

definition t_quantile_diff :: "scipy_stats \<Rightarrow> real \<Rightarrow> real \<Rightarrow> fval \<Rightarrow> fval" where
  "t_quantile_diff st significance_level min_power nu =
     np_power2 (fsub (t_ppf st (one_minus significance_level) nu)
                     (t_ppf st (one_minus min_power) nu))"

section \<open>Minimum sample size\<close>

text \<open>\<open>np.repeat(x, k)\<close> for a scalar \<open>x\<close>: an array of \<open>k\<close> float64 values.\<close>

definition np_repeat :: "fval \<Rightarrow> nat \<Rightarrow> scalar list" where
  "np_repeat x k = replicate k (Np x)"

text \<open>
  The two statements that \<open>get_min_sample_sizes\<close> runs before its loop and again in
  the loop body: \<open>nu = generalised_welch_satterthwaite(s_squared, np.repeat(n_min, G))\<close>
  and \<open>rhs_t_quantile = rhs_func(**kwargs, nu=nu)\<close>, where \<open>rhs\<close> is
  \<open>rhs_func\<close> applied to the keyword arguments.
\<close>

definition eval_rhs_t_quantile ::
    "(fval option \<Rightarrow> error + fval) \<Rightarrow> scalar list \<Rightarrow> fval \<Rightarrow> error + fval" where
  "eval_rhs_t_quantile rhs s_sq n_min =
     (case generalised_welch_satterthwaite s_sq (np_repeat n_min (length s_sq)) of
        Inl e \<Rightarrow> Inl e
      | Inr nu \<Rightarrow> rhs (Some nu))"

text \<open>
  The loop \<open>while (n_min <= rhs_t_quantile)\<close>. The source gives it no bound, so the
  result is an option: \<open>None\<close> when the loop never ends, \<open>Some (Inl e)\<close> when an
  exception leaves it, \<open>Some (Inr n_min)\<close> when it returns.
\<close>

partial_function (option) solver_loop ::
    "(fval option \<Rightarrow> error + fval) \<Rightarrow> scalar list \<Rightarrow> fval \<Rightarrow> fval \<Rightarrow> (error + fval) option" where
  "solver_loop rhs s_sq n_min rhs_t_quantile =
     (if fle n_min rhs_t_quantile then
        (case eval_rhs_t_quantile rhs s_sq (np_ceil rhs_t_quantile) of
           Inl e \<Rightarrow> Some (Inl e)
         | Inr r \<Rightarrow> solver_loop rhs s_sq (np_ceil rhs_t_quantile) r)
      else Some (Inr n_min))"

text \<open>The keyword arguments that the scenario functions forward to the solver
  (\<open>theta\<close>, the significance level and the power are built-in floats).\<close>

record kwargs =
  kw_s_squared :: "scalar list"
  kw_theta :: real
  kw_significance_level :: real
  kw_min_power :: real

record ratio_kwargs = kwargs +
  kw_ratio :: "scalar list"

definition get_min_sample_sizes ::
    "('a kwargs_scheme \<Rightarrow> fval option \<Rightarrow> error + fval) \<Rightarrow> 'a kwargs_scheme
      \<Rightarrow> (error + fval) option" where
  "get_min_sample_sizes rhs_func kw =
     (case rhs_func kw None of
        Inl e \<Rightarrow> Some (Inl e)
      | Inr rhs_normal_quantile \<Rightarrow>
          (case eval_rhs_t_quantile (rhs_func kw) (kw_s_squared kw)
                  (np_ceil rhs_normal_quantile) of
             Inl e \<Rightarrow> Some (Inl e)
           | Inr r \<Rightarrow>
               solver_loop (rhs_func kw) (kw_s_squared kw) (np_ceil rhs_normal_quantile) r))"

definition quantile_diff_of :: "scipy_stats \<Rightarrow> real \<Rightarrow> real \<Rightarrow> fval option \<Rightarrow> fval" where
  "quantile_diff_of st significance_level min_power nu =
     (case nu of
        None \<Rightarrow> norm_quantile_diff st significance_level min_power
      | Some v \<Rightarrow> t_quantile_diff st significance_level min_power v)"

definition rhs_value_equal ::
    "scipy_stats \<Rightarrow> 'a kwargs_scheme \<Rightarrow> fval option \<Rightarrow> error + fval" where
  "rhs_value_equal st kw nu =
     Inr (fdiv (fmul (quantile_diff_of st (kw_significance_level kw) (kw_min_power kw) nu)
                     (np_sum (map val (kw_s_squared kw))))
               (np_power2 (round64 (kw_theta kw))))"

definition get_min_sample_sizes_equal ::
    "scipy_stats \<Rightarrow> scalar list \<Rightarrow> real \<Rightarrow> real \<Rightarrow> real \<Rightarrow> (error + fval) option" where
  "get_min_sample_sizes_equal st s_sq th significance_level min_power =
     get_min_sample_sizes (rhs_value_equal st)
       \<lparr>kw_s_squared = s_sq, kw_theta = th,
        kw_significance_level = significance_level, kw_min_power = min_power\<rparr>"

text \<open>
  The element-wise division of two one-dimensional arrays under NumPy's
  broadcasting: equal lengths pair up, an array of length 1 is stretched, any
  other pair of lengths raises ValueError.
\<close>

definition broadcast_div :: "fval list \<Rightarrow> fval list \<Rightarrow> error + fval list" where
  "broadcast_div xs ys =
     (if length xs = length ys then Inr (map2 fdiv xs ys)
      else if length xs = 1 then Inr (map (fdiv (hd xs)) ys)
      else if length ys = 1 then Inr (map (\<lambda>x. fdiv x (hd ys)) xs)
      else Inl ValueError)"

text \<open>\<open>np.array(s_squared) * ratio[0] / np.array(ratio)\<close>.\<close>

definition ratio_scaled :: "scalar list \<Rightarrow> scalar list \<Rightarrow> error + fval list" where
  "ratio_scaled s_sq rat =
     (case rat of
        [] \<Rightarrow> Inl IndexError
      | r0 # _ \<Rightarrow> broadcast_div (map (\<lambda>x. fmul (val x) (val r0)) s_sq) (map val rat))"

definition rhs_value_ratioed ::
    "scipy_stats \<Rightarrow> 'a ratio_kwargs_scheme \<Rightarrow> fval option \<Rightarrow> error + fval" where
  "rhs_value_ratioed st kw nu =
     (case ratio_scaled (kw_s_squared kw) (kw_ratio kw) of
        Inl e \<Rightarrow> Inl e
      | Inr ws \<Rightarrow>
          Inr (fdiv (fmul (quantile_diff_of st (kw_significance_level kw) (kw_min_power kw) nu)
                          (np_sum ws))
                    (np_power2 (round64 (kw_theta kw)))))"

definition get_min_sample_sizes_ratioed ::
    "scipy_stats \<Rightarrow> scalar list \<Rightarrow> scalar list \<Rightarrow> real \<Rightarrow> real \<Rightarrow> real
      \<Rightarrow> (error + fval) option" where
  "get_min_sample_sizes_ratioed st s_sq rat th significance_level min_power =
     (if \<not> (length rat > 0)
      then Some (Inl (AssertionError ''Please provide the ratio of at least one group''))
      else get_min_sample_sizes (rhs_value_ratioed st)
             \<lparr>kw_s_squared = s_sq, kw_theta = th,
              kw_significance_level = significance_level, kw_min_power = min_power,
              kw_ratio = rat\<rparr>)"

section \<open>Minimum detectable effect\<close>

definition get_min_detectable_effect ::
    "scipy_stats \<Rightarrow> scalar list \<Rightarrow> scalar list \<Rightarrow> real \<Rightarrow> real \<Rightarrow> error + fval" where
  "get_min_detectable_effect st s_sq n significance_level min_power =
     (case generalised_welch_satterthwaite s_sq n of
        Inl e \<Rightarrow> Inl e
      | Inr nu \<Rightarrow>
          (case broadcast_div (map val s_sq) (map val n) of
             Inl e \<Rightarrow> Inl e
           | Inr qs \<Rightarrow>
               Inr (fmul (fsub (t_ppf st (one_minus significance_level) nu)
                               (t_ppf st (one_minus min_power) nu))
                         (np_sqrt (np_sum qs)))))"

section \<open>The iterations of the solver's loop\<close>

text \<open>
  \<open>loop_state rhs s_sq (n_min, rhs_t_quantile) k\<close> gives the values of the two loop
  variables of \<open>get_min_sample_sizes\<close> after \<open>k\<close> executions of the loop body,
  started in the given state: \<open>None\<close> when the loop has left before (its test
  failed, or the body raised).
\<close>

fun loop_state ::
    "(fval option \<Rightarrow> error + fval) \<Rightarrow> scalar list \<Rightarrow> fval \<times> fval \<Rightarrow> nat
      \<Rightarrow> (fval \<times> fval) option" where
  "loop_state rhs s_sq (n_min, r) 0 = Some (n_min, r)"
| "loop_state rhs s_sq (n_min, r) (Suc k) =
     (if fle n_min r then
        (case eval_rhs_t_quantile rhs s_sq (np_ceil r) of
           Inl e \<Rightarrow> None
         | Inr r' \<Rightarrow> loop_state rhs s_sq (np_ceil r, r') k)
      else None)"

section \<open>Example inputs\<close>

text \<open>
  A right-hand side that ignores its arguments, as in
  \<open>def rhs(s_squared, theta, significance_level, min_power, nu=None): return c\<close>.
\<close>

definition constant_rhs :: "real \<Rightarrow> kwargs \<Rightarrow> fval option \<Rightarrow> error + fval" where
  "constant_rhs c kw nu = Inr (Fin c)"

text \<open>
  A table of quantiles to three decimals, for the two probabilities that the
  defaults give, the floats \<open>1 - 0.05\<close> and \<open>1 - 0.8\<close>: the standard normal ones,
  and Student's ones for degrees of freedom within 0.01 of 24 and of 26. Outside
  the table the value is NaN, which is also what SciPy returns for degrees of
  freedom that are not positive.
\<close>

definition table_norm_ppf :: "fval \<Rightarrow> fval" where
  "table_norm_ppf q =
     (if q = one_minus (5 / 100) then round64 (1645 / 1000)
      else if q = one_minus (8 / 10) then round64 (- (842 / 1000))
      else NaN)"

definition table_t_ppf :: "fval \<Rightarrow> fval \<Rightarrow> fval" where
  "table_t_ppf q nu =
     (if fle (Fin (2399 / 100)) nu \<and> fle nu (Fin (2401 / 100)) then
        (if q = one_minus (5 / 100) then round64 (1711 / 1000)
         else if q = one_minus (8 / 10) then round64 (- (857 / 1000))
         else NaN)
      else if fle (Fin (2599 / 100)) nu \<and> fle nu (Fin (2601 / 100)) then
        (if q = one_minus (5 / 100) then round64 (1706 / 1000)
         else if q = one_minus (8 / 10) then round64 (- (856 / 1000))
         else NaN)
      else NaN)"

definition quantile_table :: scipy_stats where
  "quantile_table = \<lparr>norm_ppf = table_norm_ppf, t_ppf = table_t_ppf\<rparr>"

section \<open>Evaluating the arithmetic\<close>

lemma halvings_numeral:
  "halvings (numeral k) a e = (if a < 2 then e else halvings (pred_numeral k) (a / 2) (e + 1))"
  by (simp add: numeral_eq_Suc)

lemma doublings_numeral:
  "doublings (numeral k) a e = (if 1 \<le> a then e else doublings (pred_numeral k) (a * 2) (e - 1))"
  by (simp add: numeral_eq_Suc)

lemmas round64_eval = round64_def binary_exponent_def halvings_numeral doublings_numeral
  round_half_even_def nearest_even_def round_to_quantum_def signed_result_def zero_of_def
  inf_of_def

lemmas float_eval = round64_eval fadd_def fsub_def fmul_def fdiv_def np_power2_def

section \<open>The example inputs evaluated\<close>

lemma pairwise_sum_short: "length xs < 8 \<Longrightarrow> pairwise_sum xs = foldl fadd NegZero xs"
  by (subst pairwise_sum.simps) simp

lemma np_sum_short:
  "length xs < 8 \<Longrightarrow> np_sum xs = (if xs = [] then Fin 0 else foldl fadd NegZero xs)"
  by (simp add: np_sum_def pairwise_sum_short)

lemma np_repeat_0: "np_repeat x 0 = []"
  by (simp add: np_repeat_def)

lemma np_repeat_Suc: "np_repeat x (Suc k) = Np x # np_repeat x k"
  by (simp add: np_repeat_def)

lemma np_repeat_1: "np_repeat x 1 = [Np x]"
  by (simp add: np_repeat_def)

lemma np_repeat_2: "np_repeat x 2 = [Np x, Np x]"
  by (simp add: np_repeat_def numeral_2_eq_2)

lemmas np_repeat_eval = np_repeat_0 np_repeat_Suc np_repeat_1 np_repeat_2

lemma one_minus_alpha: "one_minus (1 / 20) = Fin (4278419646001971 / 4503599627370496)"
  by (simp add: one_minus_def float_eval)

lemma one_minus_power: "one_minus (4 / 5) = Fin (900719925474099 / 4503599627370496)"
  by (simp add: one_minus_def float_eval)

lemma table_norm_alpha:
  "table_norm_ppf (one_minus (1 / 20)) = Fin (3704210693512233 / 2251799813685248)"
  by (simp add: table_norm_ppf_def round64_eval)

lemma table_norm_power:
  "table_norm_ppf (one_minus (4 / 5)) = Fin (- (7584061772491915 / 9007199254740992))"
  by (simp add: table_norm_ppf_def one_minus_alpha one_minus_power round64_eval)

lemma norm_quantile_diff_table:
  "norm_quantile_diff quantile_table (5 / 100) (8 / 10)
     = Fin (3481940600452943 / 562949953421312)"
  by (simp add: norm_quantile_diff_def quantile_table_def table_norm_alpha table_norm_power
      float_eval)

lemma table_t_24:
  assumes "fle (Fin (2399 / 100)) nu" "fle nu (Fin (2401 / 100))"
  shows "table_t_ppf (one_minus (1 / 20)) nu = Fin (7705658962430919 / 4503599627370496)"
    and "table_t_ppf (one_minus (4 / 5)) nu = Fin (- (3859584880656515 / 4503599627370496))"
  using assms
  by (simp_all add: table_t_ppf_def one_minus_alpha one_minus_power round64_eval)

lemma table_t_26:
  assumes "fle (Fin (2599 / 100)) nu" "fle nu (Fin (2601 / 100))"
  shows "table_t_ppf (one_minus (1 / 20)) nu = Fin (3841570482147033 / 2251799813685248)"
    and "table_t_ppf (one_minus (4 / 5)) nu = Fin (- (7710162562058289 / 9007199254740992))"
proof -
  from assms have "\<not> fle nu (Fin (2401 / 100))"
    by (cases nu) (simp_all add: fle_def)
  with assms show
    "table_t_ppf (one_minus (1 / 20)) nu = Fin (3841570482147033 / 2251799813685248)"
    "table_t_ppf (one_minus (4 / 5)) nu = Fin (- (7710162562058289 / 9007199254740992))"
    by (simp_all add: table_t_ppf_def one_minus_alpha one_minus_power round64_eval)
qed

lemma table_t_outside:
  assumes "\<not> fle (Fin (2399 / 100)) nu"
  shows "table_t_ppf q nu = NaN"
proof -
  from assms have "\<not> fle (Fin (2599 / 100)) nu"
    by (cases nu) (simp_all add: fle_def)
  with assms show ?thesis by (simp add: table_t_ppf_def)
qed

lemma t_quantile_diff_24:
  assumes "fle (Fin (2399 / 100)) nu" "fle nu (Fin (2401 / 100))"
  shows "t_quantile_diff quantile_table (5 / 100) (8 / 10) nu
           = Fin (7424886547262133 / 1125899906842624)"
  by (simp add: t_quantile_diff_def quantile_table_def table_t_24[OF assms] float_eval)

lemma t_quantile_diff_26:
  assumes "fle (Fin (2599 / 100)) nu" "fle nu (Fin (2601 / 100))"
  shows "t_quantile_diff quantile_table (5 / 100) (8 / 10) nu
           = Fin (1847557837032379 / 281474976710656)"
  by (simp add: t_quantile_diff_def quantile_table_def table_t_26[OF assms] float_eval)

lemma t_quantile_diff_outside:
  assumes "\<not> fle (Fin (2399 / 100)) nu"
  shows "t_quantile_diff quantile_table significance_level min_power nu = NaN"
  by (simp add: t_quantile_diff_def quantile_table_def table_t_outside[OF assms] float_eval)

lemma val_Py_0: "val (Py 0) = Fin 0"
  by (simp add: round64_eval)

lemma val_Py_1: "val (Py 1) = Fin 1"
  by (simp add: round64_eval)

lemma gws_unit_13:
  "generalised_welch_satterthwaite [Py 1, Py 1] (np_repeat (Fin 13) 2) = Inr (Fin 24)"
  by (simp add: np_repeat_eval generalised_welch_satterthwaite_def float_eval)

lemma gws_unit_14:
  "generalised_welch_satterthwaite [Py 1, Py 1] (np_repeat (Fin 14) 2)
     = Inr (Fin (7318349394477055 / 281474976710656))"
  by (simp add: np_repeat_eval generalised_welch_satterthwaite_def float_eval)


lemma rhs_equal_unit:
  "rhs_value_equal quantile_table
     \<lparr>kw_s_squared = [Py 1, Py 1], kw_theta = 1, kw_significance_level = 5 / 100,
      kw_min_power = 8 / 10\<rparr> None
     = Inr (Fin (3481940600452943 / 281474976710656))"
  "fle (Fin (2399 / 100)) nu \<Longrightarrow> fle nu (Fin (2401 / 100)) \<Longrightarrow>
   rhs_value_equal quantile_table
     \<lparr>kw_s_squared = [Py 1, Py 1], kw_theta = 1, kw_significance_level = 5 / 100,
      kw_min_power = 8 / 10\<rparr> (Some nu)
     = Inr (Fin (7424886547262133 / 562949953421312))"
  "fle (Fin (2599 / 100)) nu \<Longrightarrow> fle nu (Fin (2601 / 100)) \<Longrightarrow>
   rhs_value_equal quantile_table
     \<lparr>kw_s_squared = [Py 1, Py 1], kw_theta = 1, kw_significance_level = 5 / 100,
      kw_min_power = 8 / 10\<rparr> (Some nu)
     = Inr (Fin (1847557837032379 / 140737488355328))"
  using norm_quantile_diff_table t_quantile_diff_24[of nu] t_quantile_diff_26[of nu]
  by (simp_all add: rhs_value_equal_def quantile_diff_of_def np_sum_short float_eval)

lemma run_equal_unit:
  "get_min_sample_sizes (rhs_value_equal quantile_table)
       \<lparr>kw_s_squared = [Py 1, Py 1], kw_theta = 1, kw_significance_level = 5 / 100,
        kw_min_power = 8 / 10\<rparr> = Some (Inr (Fin 14))"
proof -
  define kw where "kw = \<lparr>kw_s_squared = [Py 1, Py 1], kw_theta = 1,
        kw_significance_level = 5 / 100, kw_min_power = 8 / 10\<rparr>"
  have s: "kw_s_squared kw = [Py 1, Py 1]"
    by (simp add: kw_def)
  have r0: "rhs_value_equal quantile_table kw None
              = Inr (Fin (3481940600452943 / 281474976710656))"
    unfolding kw_def by (rule rhs_equal_unit(1))
  have r24: "rhs_value_equal quantile_table kw (Some (Fin 24))
              = Inr (Fin (7424886547262133 / 562949953421312))"
    unfolding kw_def by (rule rhs_equal_unit(2)) (simp_all add: fle_def)
  have r26: "rhs_value_equal quantile_table kw (Some (Fin (7318349394477055 / 281474976710656)))
              = Inr (Fin (1847557837032379 / 140737488355328))"
    unfolding kw_def by (rule rhs_equal_unit(3)) (simp_all add: fle_def)
  have e13: "eval_rhs_t_quantile (rhs_value_equal quantile_table kw) [Py 1, Py 1] (Fin 13)
               = Inr (Fin (7424886547262133 / 562949953421312))"
    using gws_unit_13 r24 by (simp add: eval_rhs_t_quantile_def np_repeat_eval)
  have e14: "eval_rhs_t_quantile (rhs_value_equal quantile_table kw) [Py 1, Py 1] (Fin 14)
               = Inr (Fin (1847557837032379 / 140737488355328))"
    using gws_unit_14 r26 by (simp add: eval_rhs_t_quantile_def np_repeat_eval)
  have l14: "solver_loop (rhs_value_equal quantile_table kw) [Py 1, Py 1] (Fin 14)
               (Fin (1847557837032379 / 140737488355328)) = Some (Inr (Fin 14))"
    by (subst solver_loop.simps) (simp add: fle_def)
  have l13: "solver_loop (rhs_value_equal quantile_table kw) [Py 1, Py 1] (Fin 13)
               (Fin (7424886547262133 / 562949953421312)) = Some (Inr (Fin 14))"
    using e14 l14 by (subst solver_loop.simps) (simp add: fle_def)
  from r0 e13 l13 have "get_min_sample_sizes (rhs_value_equal quantile_table) kw
      = Some (Inr (Fin 14))"
    by (simp add: get_min_sample_sizes_def s)
  then show ?thesis
    unfolding kw_def .
qed

section \<open>The solver's loop and its iterations\<close>

lemma loop_state_Suc:
  "loop_state rhs s st (Suc k) =
     (case loop_state rhs s st k of
        None \<Rightarrow> None
      | Some (n, r) \<Rightarrow>
          if fle n r then
            (case eval_rhs_t_quantile rhs s (np_ceil r) of
               Inl e \<Rightarrow> None
             | Inr r' \<Rightarrow> Some (np_ceil r, r'))
          else None)"
proof (induction k arbitrary: st)
  case 0
  then show ?case by (cases st) (simp split: sum.splits)
next
  case (Suc k)
  obtain n r where st: "st = (n, r)" by (cases st)
  show ?case
  proof (cases "fle n r")
    case False
    then show ?thesis by (simp add: st)
  next
    case True
    show ?thesis
    proof (cases "eval_rhs_t_quantile rhs s (np_ceil r)")
      case (Inl e)
      with True show ?thesis by (simp add: st)
    next
      case (Inr r1)
      have "loop_state rhs s (n, r) (Suc (Suc k)) = loop_state rhs s (np_ceil r, r1) (Suc k)"
        using True Inr by simp
      also have "\<dots> = (case loop_state rhs s (np_ceil r, r1) k of
            None \<Rightarrow> None
          | Some (n, r) \<Rightarrow>
              if fle n r then
                (case eval_rhs_t_quantile rhs s (np_ceil r) of
                   Inl e \<Rightarrow> None
                 | Inr r' \<Rightarrow> Some (np_ceil r, r'))
              else None)"
        by (rule Suc.IH)
      also have "loop_state rhs s (np_ceil r, r1) k = loop_state rhs s (n, r) (Suc k)"
        using True Inr by simp
      finally show ?thesis by (simp only: st)
    qed
  qed
qed

lemma solver_loop_Some_D:
  assumes "solver_loop rhs s n r = Some y"
  shows "\<exists>k n' r'. loop_state rhs s (n, r) k = Some (n', r') \<and>
           ((\<not> fle n' r' \<and> y = Inr n') \<or>
            (fle n' r' \<and> (\<exists>e. eval_rhs_t_quantile rhs s (np_ceil r') = Inl e \<and> y = Inl e)))"
proof (rule solver_loop.raw_induct[where
      P = "\<lambda>rhs s n r y. \<exists>k n' r'. loop_state rhs s (n, r) k = Some (n', r') \<and>
           ((\<not> fle n' r' \<and> y = Inr n') \<or>
            (fle n' r' \<and> (\<exists>e. eval_rhs_t_quantile rhs s (np_ceil r') = Inl e \<and> y = Inl e)))",
      OF _ assms])
  fix loop :: "(fval option \<Rightarrow> error + fval) \<Rightarrow> scalar list \<Rightarrow> fval \<Rightarrow> fval \<Rightarrow> (error + fval) option"
  fix rhs s n r y
  assume IH: "\<And>rhs s n r y. loop rhs s n r = Some y \<Longrightarrow>
      \<exists>k n' r'. loop_state rhs s (n, r) k = Some (n', r') \<and>
           ((\<not> fle n' r' \<and> y = Inr n') \<or>
            (fle n' r' \<and> (\<exists>e. eval_rhs_t_quantile rhs s (np_ceil r') = Inl e \<and> y = Inl e)))"
  assume body: "(if fle n r then
        (case eval_rhs_t_quantile rhs s (np_ceil r) of
           Inl e \<Rightarrow> Some (Inl e)
         | Inr r' \<Rightarrow> loop rhs s (np_ceil r) r')
      else Some (Inr n)) = Some y"
  show "\<exists>k n' r'. loop_state rhs s (n, r) k = Some (n', r') \<and>
           ((\<not> fle n' r' \<and> y = Inr n') \<or>
            (fle n' r' \<and> (\<exists>e. eval_rhs_t_quantile rhs s (np_ceil r') = Inl e \<and> y = Inl e)))"
  proof (cases "fle n r")
    case False
    with body have "y = Inr n" by simp
    with False have "loop_state rhs s (n, r) 0 = Some (n, r) \<and> \<not> fle n r \<and> y = Inr n"
      by simp
    then show ?thesis by blast
  next
    case True
    show ?thesis
    proof (cases "eval_rhs_t_quantile rhs s (np_ceil r)")
      case (Inl e)
      with True body have "y = Inl e" by simp
      with True Inl have "loop_state rhs s (n, r) 0 = Some (n, r) \<and> fle n r
          \<and> eval_rhs_t_quantile rhs s (np_ceil r) = Inl e \<and> y = Inl e"
        by simp
      then show ?thesis by blast
    next
      case (Inr r1)
      with True body have "loop rhs s (np_ceil r) r1 = Some y" by simp
      from IH[OF this] obtain k n' r' where
        k: "loop_state rhs s (np_ceil r, r1) k = Some (n', r')"
        and fin: "(\<not> fle n' r' \<and> y = Inr n') \<or>
            (fle n' r' \<and> (\<exists>e. eval_rhs_t_quantile rhs s (np_ceil r') = Inl e \<and> y = Inl e))"
        by blast
      from k True Inr have "loop_state rhs s (n, r) (Suc k) = Some (n', r')" by simp
      with fin show ?thesis by blast
    qed
  qed
qed

lemma solver_loop_returns:
  assumes "loop_state rhs s (n, r) k = Some (n', r')" "\<not> fle n' r'"
  shows "solver_loop rhs s n r = Some (Inr n')"
  using assms
proof (induction k arbitrary: n r)
  case 0
  then show ?case by (simp add: solver_loop.simps)
next
  case (Suc k)
  from Suc.prems(1) have t: "fle n r"
    by (simp split: if_splits)
  with Suc.prems(1) obtain r1 where r1: "eval_rhs_t_quantile rhs s (np_ceil r) = Inr r1"
    and st: "loop_state rhs s (np_ceil r, r1) k = Some (n', r')"
    by (auto split: sum.splits)
  from Suc.IH[OF st Suc.prems(2)] t r1 show ?case
    by (subst solver_loop.simps) simp
qed

lemma solver_loop_raises:
  assumes "loop_state rhs s (n, r) k = Some (n', r')" "fle n' r'"
    "eval_rhs_t_quantile rhs s (np_ceil r') = Inl e"
  shows "solver_loop rhs s n r = Some (Inl e)"
  using assms
proof (induction k arbitrary: n r)
  case 0
  then show ?case by (subst solver_loop.simps) simp
next
  case (Suc k)
  from Suc.prems(1) have t: "fle n r"
    by (simp split: if_splits)
  with Suc.prems(1) obtain r1 where r1: "eval_rhs_t_quantile rhs s (np_ceil r) = Inr r1"
    and st: "loop_state rhs s (np_ceil r, r1) k = Some (n', r')"
    by (auto split: sum.splits)
  from Suc.IH[OF st Suc.prems(2,3)] t r1 show ?case
    by (subst solver_loop.simps) simp
qed

lemma solver_loop_None_D:
  assumes "solver_loop rhs s n r = None"
  shows "\<exists>n' r'. loop_state rhs s (n, r) k = Some (n', r') \<and> fle n' r'"
  using assms
proof (induction k arbitrary: n r)
  case 0
  have "fle n r" using 0 by (subst (asm) solver_loop.simps) (simp split: if_splits)
  then show ?case by simp
next
  case (Suc k)
  have t: "fle n r" using Suc.prems by (subst (asm) solver_loop.simps) (simp split: if_splits)
  from Suc.prems t obtain r1 where r1: "eval_rhs_t_quantile rhs s (np_ceil r) = Inr r1"
    and rest: "solver_loop rhs s (np_ceil r) r1 = None"
    by (subst (asm) solver_loop.simps) (auto split: sum.splits)
  from Suc.IH[OF rest] t r1 show ?case by simp
qed

lemma solver_loop_None_iff:
  "solver_loop rhs s n r = None \<longleftrightarrow>
     (\<forall>k. \<exists>n' r'. loop_state rhs s (n, r) k = Some (n', r') \<and> fle n' r')"
proof
  assume "solver_loop rhs s n r = None"
  then show "\<forall>k. \<exists>n' r'. loop_state rhs s (n, r) k = Some (n', r') \<and> fle n' r'"
    by (blast dest: solver_loop_None_D)
next
  assume all: "\<forall>k. \<exists>n' r'. loop_state rhs s (n, r) k = Some (n', r') \<and> fle n' r'"
  show "solver_loop rhs s n r = None"
  proof (rule ccontr)
    assume "solver_loop rhs s n r \<noteq> None"
    then obtain y where "solver_loop rhs s n r = Some y" by blast
    from solver_loop_Some_D[OF this] obtain k n' r' where
      st: "loop_state rhs s (n, r) k = Some (n', r')"
      and fin: "(\<not> fle n' r' \<and> y = Inr n') \<or>
            (fle n' r' \<and> (\<exists>e. eval_rhs_t_quantile rhs s (np_ceil r') = Inl e \<and> y = Inl e))"
      by blast
    from all st have t: "fle n' r'" by (metis option.inject prod.inject)
    with fin obtain e where e: "eval_rhs_t_quantile rhs s (np_ceil r') = Inl e" by blast
    have "loop_state rhs s (n, r) (Suc k) = None"
      using st t e by (simp add: loop_state_Suc del: loop_state.simps)
    with all show False by (metis option.distinct(1))
  qed
qed


lemma fle_refl: "\<not> is_nan a \<Longrightarrow> fle a a"
  by (cases a) (auto simp: fle_def)

lemma fle_trans: "fle a b \<Longrightarrow> fle b c \<Longrightarrow> fle a c"
  by (cases a; cases b; cases c) (auto simp: fle_def split: if_splits)

lemma fle_np_ceil: "\<not> is_nan r \<Longrightarrow> fle r (np_ceil r)"
  by (cases r) (auto simp: fle_def)

lemma fle_not_nan: "fle a b \<Longrightarrow> \<not> is_nan a \<and> \<not> is_nan b"
  by (auto simp: fle_def split: if_splits)

lemma np_ceil_integer_valued:
  "\<not> is_nan r \<Longrightarrow> \<not> is_inf r \<Longrightarrow> is_integer_valued (np_ceil r)"
  by (cases r) auto

lemma np_ceil_special: "is_nan (np_ceil r) = is_nan r" "is_inf (np_ceil r) = is_inf r"
  by (cases r; simp)+

lemma gws_loop_np_repeat:
  "length s \<le> k \<Longrightarrow> \<exists>p. gws_loop s (replicate k (Np v)) a b = Inr p"
proof (induction s arbitrary: k a b)
  case Nil
  then show ?case by simp
next
  case (Cons x xs)
  then obtain j where k: "k = Suc j" and j: "length xs \<le> j" by (cases k) auto
  have td: "true_div x (Np v) = Inr (fdiv (val x) v)" by (cases x) simp_all
  show ?case using Cons.IH[OF j] by (simp add: k td)
qed

lemma gws_np_repeat:
  "\<exists>nu. generalised_welch_satterthwaite s (np_repeat v (length s)) = Inr nu"
proof -
  obtain p where "gws_loop s (replicate (length s) (Np v)) (Fin 0) (Fin 0) = Inr p"
    using gws_loop_np_repeat[of s "length s"] by blast
  then show ?thesis
    by (cases p) (simp add: generalised_welch_satterthwaite_def np_repeat_def)
qed


lemma eval_rhs_t_quantile_Inl:
  "eval_rhs_t_quantile rhs s n = Inl e \<Longrightarrow> \<exists>nu. rhs (Some nu) = Inl e"
  using gws_np_repeat[of s n]
  by (auto simp: eval_rhs_t_quantile_def split: sum.splits)


lemma loop_state_step:
  assumes "loop_state rhs s st (Suc j) = Some (n', r')"
  shows "\<exists>n r. loop_state rhs s st j = Some (n, r) \<and> fle n r \<and> n' = np_ceil r
           \<and> eval_rhs_t_quantile rhs s (np_ceil r) = Inr r'"
  using assms
  by (auto simp: loop_state_Suc simp del: loop_state.simps split: option.splits if_splits sum.splits)

lemma loop_state_prefix:
  assumes "loop_state rhs s st k = Some p" "j \<le> k"
  shows "\<exists>q. loop_state rhs s st j = Some q"
  using assms
proof (induction k arbitrary: p)
  case 0
  then show ?case by simp
next
  case (Suc k)
  show ?case
  proof (cases "j = Suc k")
    case True
    with Suc.prems show ?thesis by blast
  next
    case False
    with Suc.prems(2) have jk: "j \<le> k" by simp
    obtain n' r' where p: "p = (n', r')" by (cases p)
    from loop_state_step[OF Suc.prems(1)[unfolded p]] obtain q where
      "loop_state rhs s st k = Some q" by blast
    from Suc.IH[OF this jk] show ?thesis .
  qed
qed

lemma loop_state_consecutive:
  assumes "loop_state rhs s st j = Some (n, r)" "loop_state rhs s st (Suc j) = Some (n', r')"
  shows "fle n n'"
proof -
  from loop_state_step[OF assms(2)] assms(1) have t: "fle n r" and n': "n' = np_ceil r"
    by auto
  from t have "\<not> is_nan r" by (simp add: fle_not_nan)
  then have "fle r (np_ceil r)" by (rule fle_np_ceil)
  with t show ?thesis unfolding n' by (rule fle_trans)
qed

lemma loop_state_above_start:
  assumes "loop_state rhs s (n, r) k = Some (n', r')" "\<not> is_nan n"
  shows "fle n n'"
  using assms(1)
proof (induction k arbitrary: n' r')
  case 0
  then show ?case using assms(2) by (simp add: fle_refl)
next
  case (Suc k)
  from loop_state_step[OF Suc.prems] obtain n1 r1 where
    st: "loop_state rhs s (n, r) k = Some (n1, r1)" by blast
  from Suc.IH[OF st] have "fle n n1" .
  moreover have "fle n1 n'" using st Suc.prems by (rule loop_state_consecutive)
  ultimately show ?case by (rule fle_trans)
qed

lemma get_min_sample_sizes_Some_D:
  assumes "get_min_sample_sizes rhs_func kw = Some y"
  shows "(\<exists>e. rhs_func kw None = Inl e \<and> y = Inl e) \<or>
     (\<exists>r0. rhs_func kw None = Inr r0 \<and>
        ((\<exists>e. eval_rhs_t_quantile (rhs_func kw) (kw_s_squared kw) (np_ceil r0) = Inl e \<and> y = Inl e)
       \<or> (\<exists>rt. eval_rhs_t_quantile (rhs_func kw) (kw_s_squared kw) (np_ceil r0) = Inr rt
             \<and> solver_loop (rhs_func kw) (kw_s_squared kw) (np_ceil r0) rt = Some y)))"
proof (cases "rhs_func kw None")
  case (Inl e)
  with assms show ?thesis by (auto simp: get_min_sample_sizes_def)
next
  case r0: (Inr r0)
  show ?thesis
  proof (cases "eval_rhs_t_quantile (rhs_func kw) (kw_s_squared kw) (np_ceil r0)")
    case (Inl e)
    with assms r0 show ?thesis by (auto simp: get_min_sample_sizes_def)
  next
    case (Inr rt)
    with assms r0 show ?thesis by (auto simp: get_min_sample_sizes_def)
  qed
qed

lemma eval_constant_rhs:
  "eval_rhs_t_quantile (constant_rhs c kw) s n = Inr (Fin c)"
  using gws_np_repeat[of s n]
  by (auto simp: eval_rhs_t_quantile_def constant_rhs_def)

lemma loop_state_constant_rhs:
  "loop_state (constant_rhs (of_int m) kw) s (Fin (of_int m), Fin (of_int m)) k
     = Some (Fin (of_int m), Fin (of_int m))"
proof (induction k)
  case 0
  show ?case by simp
next
  case (Suc k)
  have c: "np_ceil (Fin (of_int m)) = Fin (of_int m)" by simp
  have t: "fle (Fin (of_int m)) (Fin (of_int m))" by (simp add: fle_def)
  show ?case
    using Suc by (simp only: loop_state.simps t if_True c eval_constant_rhs sum.case)
qed

lemma solver_loop_constant_rhs:
  "solver_loop (constant_rhs (of_int m) kw) s (Fin (of_int m)) (Fin (of_int m)) = None"
  unfolding solver_loop_None_iff
  by (simp add: loop_state_constant_rhs fle_def)


section \<open>Claims about the solver\<close>




text \<open>
  C3. \<open>get_min_sample_sizes\<close> has no iteration cap and no failure for an iteration
  limit: its loop goes on as long as the test \<open>n_min <= rhs_t_quantile\<close> holds. The
  call neither returns nor raises exactly when the two evaluations before the loop
  succeed and the test holds after every number of executions of the loop body.
\<close>

theorem solver_no_iteration_cap:
  "get_min_sample_sizes rhs_func kw = None \<longleftrightarrow>
     (\<exists>r0 rt. rhs_func kw None = Inr r0
        \<and> eval_rhs_t_quantile (rhs_func kw) (kw_s_squared kw) (np_ceil r0) = Inr rt
        \<and> (\<forall>k. \<exists>n r. loop_state (rhs_func kw) (kw_s_squared kw) (np_ceil r0, rt) k = Some (n, r)
                    \<and> fle n r))"
proof (cases "rhs_func kw None")
  case (Inl e)
  then show ?thesis by (simp add: get_min_sample_sizes_def)
next
  case r0: (Inr r0)
  show ?thesis
  proof (cases "eval_rhs_t_quantile (rhs_func kw) (kw_s_squared kw) (np_ceil r0)")
    case (Inl e)
    with r0 show ?thesis by (simp add: get_min_sample_sizes_def)
  next
    case (Inr rt)
    with r0 show ?thesis by (simp add: get_min_sample_sizes_def solver_loop_None_iff)
  qed
qed

text \<open>
  A right-hand side that always returns 2: the candidate stays 2, the test
  \<open>2 <= 2\<close> holds for ever, and the call never ends.
\<close>

theorem solver_no_iteration_cap_counterexample:
  "get_min_sample_sizes (constant_rhs 2)
     \<lparr>kw_s_squared = [Py 1], kw_theta = 1, kw_significance_level = 5 / 100,
      kw_min_power = 8 / 10\<rparr> = None"
  using solver_loop_constant_rhs[of 2]
  by (simp add: get_min_sample_sizes_def constant_rhs_def eval_constant_rhs)

theorem solver_no_iteration_cap_witness:
  "get_min_sample_sizes (constant_rhs 3)
     \<lparr>kw_s_squared = [Py 1, Py 4], kw_theta = 1, kw_significance_level = 5 / 100,
      kw_min_power = 8 / 10\<rparr> = None"
proof -
  let ?kw = "\<lparr>kw_s_squared = [Py 1, Py 4], kw_theta = 1, kw_significance_level = 5 / 100,
      kw_min_power = 8 / 10\<rparr>"
  have r0: "constant_rhs 3 ?kw None = Inr (Fin 3)" by (simp add: constant_rhs_def)
  have rt: "eval_rhs_t_quantile (constant_rhs 3 ?kw) (kw_s_squared ?kw) (np_ceil (Fin 3)) = Inr (Fin 3)"
    by (rule eval_constant_rhs)
  have c: "np_ceil (Fin 3) = Fin 3" by simp
  have "\<forall>k. \<exists>n r. loop_state (constant_rhs 3 ?kw) (kw_s_squared ?kw) (np_ceil (Fin 3), Fin 3) k
      = Some (n, r) \<and> fle n r"
    using loop_state_constant_rhs[of 3 ?kw "kw_s_squared ?kw"] by (simp add: c fle_def)
  with r0 rt show ?thesis
    unfolding solver_no_iteration_cap by blast
qed


text \<open>
  C9. Whenever \<open>get_min_sample_sizes\<close> returns \<open>n_min\<close>: the first right-hand side
  \<open>r0\<close> (normal quantiles) and the next one were computed, the loop ran some number
  \<open>k\<close> of times and stopped in a state whose candidate is \<open>n_min\<close>; \<open>n_min\<close> is the
  \<open>np.ceil\<close> of some value, hence a whole number unless it is an infinity or NaN
  (which \<open>np.ceil\<close> passes through); it is at least the first candidate
  \<open>np.ceil(r0)\<close> unless \<open>r0\<close> is NaN; and every execution of the loop body replaces
  the candidate by one that is not smaller.
\<close>

theorem solver_candidates:
  assumes "get_min_sample_sizes rhs_func kw = Some (Inr n_min)"
  shows "\<exists>r0 rt k rk.
      rhs_func kw None = Inr r0
    \<and> eval_rhs_t_quantile (rhs_func kw) (kw_s_squared kw) (np_ceil r0) = Inr rt
    \<and> loop_state (rhs_func kw) (kw_s_squared kw) (np_ceil r0, rt) k = Some (n_min, rk)
    \<and> (\<exists>r. n_min = np_ceil r)
    \<and> (is_integer_valued n_min \<or> is_inf n_min \<or> is_nan n_min)
    \<and> (\<not> is_nan r0 \<longrightarrow> fle (np_ceil r0) n_min)
    \<and> (\<forall>j<k. \<exists>n r n' r'.
          loop_state (rhs_func kw) (kw_s_squared kw) (np_ceil r0, rt) j = Some (n, r)
        \<and> loop_state (rhs_func kw) (kw_s_squared kw) (np_ceil r0, rt) (Suc j) = Some (n', r')
        \<and> fle n n')"
proof -
  let ?rhs = "rhs_func kw" and ?s = "kw_s_squared kw"
  from get_min_sample_sizes_Some_D[OF assms] obtain r0 rt where
    r0: "rhs_func kw None = Inr r0"
    and rt: "eval_rhs_t_quantile ?rhs ?s (np_ceil r0) = Inr rt"
    and loop: "solver_loop ?rhs ?s (np_ceil r0) rt = Some (Inr n_min)"
    by auto
  from solver_loop_Some_D[OF loop] obtain k rk where
    st: "loop_state ?rhs ?s (np_ceil r0, rt) k = Some (n_min, rk)"
    by auto
  have ceil: "\<exists>r. n_min = np_ceil r"
  proof (cases k)
    case 0
    with st show ?thesis by auto
  next
    case (Suc j)
    with loop_state_step[of ?rhs ?s "(np_ceil r0, rt)" j n_min rk] st show ?thesis by blast
  qed
  then obtain r where r: "n_min = np_ceil r" ..
  have whole: "is_integer_valued n_min \<or> is_inf n_min \<or> is_nan n_min"
    unfolding r using np_ceil_integer_valued[of r] by (auto simp: np_ceil_special)
  have above: "fle (np_ceil r0) n_min" if "\<not> is_nan r0"
    using st that by (intro loop_state_above_start) (simp_all add: np_ceil_special)
  have mono: "\<exists>n r n' r'.
          loop_state ?rhs ?s (np_ceil r0, rt) j = Some (n, r)
        \<and> loop_state ?rhs ?s (np_ceil r0, rt) (Suc j) = Some (n', r')
        \<and> fle n n'" if "j < k" for j
  proof -
    from that have "Suc j \<le> k" by simp
    from loop_state_prefix[OF st this] obtain n' r' where
      sj: "loop_state ?rhs ?s (np_ceil r0, rt) (Suc j) = Some (n', r')" by (cases) auto
    from loop_state_step[OF sj] obtain n r where
      j: "loop_state ?rhs ?s (np_ceil r0, rt) j = Some (n, r)" by blast
    from loop_state_consecutive[OF j sj] j sj show ?thesis by blast
  qed
  from r0 rt st ceil whole above mono show ?thesis by blast
qed

theorem solver_candidates_witness:
  "get_min_sample_sizes (rhs_value_equal quantile_table)
       \<lparr>kw_s_squared = [Py 1, Py 1], kw_theta = 1, kw_significance_level = 5 / 100,
        kw_min_power = 8 / 10\<rparr> = Some (Inr (Fin 14))
   \<and> (\<exists>r0 rt k rk.
      rhs_value_equal quantile_table
       \<lparr>kw_s_squared = [Py 1, Py 1], kw_theta = 1, kw_significance_level = 5 / 100,
        kw_min_power = 8 / 10\<rparr> None = Inr r0
    \<and> loop_state (rhs_value_equal quantile_table
       \<lparr>kw_s_squared = [Py 1, Py 1], kw_theta = 1, kw_significance_level = 5 / 100,
        kw_min_power = 8 / 10\<rparr>) [Py 1, Py 1] (np_ceil r0, rt) k = Some (Fin 14, rk)
    \<and> is_integer_valued (Fin 14)
    \<and> fle (np_ceil r0) (Fin 14))"
proof -
  let ?kw = "\<lparr>kw_s_squared = [Py 1, Py 1], kw_theta = 1, kw_significance_level = 5 / 100,
        kw_min_power = 8 / 10\<rparr>"
  have run: "get_min_sample_sizes (rhs_value_equal quantile_table) ?kw = Some (Inr (Fin 14))"
    by (rule run_equal_unit)
  have fin: "rhs_value_equal quantile_table ?kw None
      = Inr (Fin (3481940600452943 / 281474976710656))"
    by (rule rhs_equal_unit(1))
  from solver_candidates[OF run] obtain r0 rt k rk where
    "rhs_value_equal quantile_table ?kw None = Inr r0"
    "loop_state (rhs_value_equal quantile_table ?kw) (kw_s_squared ?kw) (np_ceil r0, rt) k
       = Some (Fin 14, rk)"
    "\<not> is_nan r0 \<longrightarrow> fle (np_ceil r0) (Fin 14)"
    by blast
  with fin run show ?thesis by auto
qed

text \<open>
  With \<open>theta = 0\<close> the right-hand side is \<open>x / 0\<close>: for a positive variance the
  call returns the infinity, which is no whole number; for the variance 0 it returns
  NaN, the first candidate is NaN too, and \<open>NaN <= NaN\<close> is false.
\<close>

theorem solver_candidates_counterexample:
  "get_min_sample_sizes_equal quantile_table [Py 1] 0 (5 / 100) (8 / 10) = Some (Inr PInf)
   \<and> \<not> is_integer_valued PInf
   \<and> get_min_sample_sizes_equal quantile_table [Py 0] 0 (5 / 100) (8 / 10) = Some (Inr NaN)
   \<and> rhs_value_equal quantile_table
        \<lparr>kw_s_squared = [Py 0], kw_theta = 0, kw_significance_level = 5 / 100,
         kw_min_power = 8 / 10\<rparr> None = Inr NaN
   \<and> \<not> fle (np_ceil NaN) NaN"
proof -
  let ?k1 = "\<lparr>kw_s_squared = [Py 1], kw_theta = 0, kw_significance_level = 5 / 100,
         kw_min_power = 8 / 10\<rparr>"
  let ?k0 = "\<lparr>kw_s_squared = [Py 0], kw_theta = 0, kw_significance_level = 5 / 100,
         kw_min_power = 8 / 10\<rparr>"
  have r1: "rhs_value_equal quantile_table ?k1 None = Inr PInf"
    using norm_quantile_diff_table
    by (simp add: rhs_value_equal_def quantile_diff_of_def np_sum_short float_eval)
  have g1: "generalised_welch_satterthwaite [Py 1] (np_repeat PInf 1) = Inr NaN"
    by (simp add: np_repeat_eval generalised_welch_satterthwaite_def float_eval)
  have t1: "rhs_value_equal quantile_table ?k1 (Some NaN) = Inr NaN"
    using t_quantile_diff_outside[of NaN "5 / 100" "8 / 10"]
    by (simp add: rhs_value_equal_def quantile_diff_of_def fle_def fmul_def fdiv_def)
  have e1: "eval_rhs_t_quantile (rhs_value_equal quantile_table ?k1) [Py 1] PInf = Inr NaN"
    using g1 t1 by (simp add: eval_rhs_t_quantile_def np_repeat_eval)
  have l1: "solver_loop (rhs_value_equal quantile_table ?k1) [Py 1] PInf NaN = Some (Inr PInf)"
    by (subst solver_loop.simps) (simp add: fle_def)
  have run1: "get_min_sample_sizes (rhs_value_equal quantile_table) ?k1 = Some (Inr PInf)"
    using r1 e1 l1 by (simp add: get_min_sample_sizes_def)
  have r0: "rhs_value_equal quantile_table ?k0 None = Inr NaN"
    using norm_quantile_diff_table
    by (simp add: rhs_value_equal_def quantile_diff_of_def np_sum_short float_eval)
  have g0: "generalised_welch_satterthwaite [Py 0] (np_repeat NaN 1) = Inr NaN"
    by (simp add: np_repeat_eval generalised_welch_satterthwaite_def float_eval)
  have t0: "rhs_value_equal quantile_table ?k0 (Some NaN) = Inr NaN"
    using t_quantile_diff_outside[of NaN "5 / 100" "8 / 10"]
    by (simp add: rhs_value_equal_def quantile_diff_of_def fle_def fmul_def fdiv_def)
  have e0: "eval_rhs_t_quantile (rhs_value_equal quantile_table ?k0) [Py 0] NaN = Inr NaN"
    using g0 t0 by (simp add: eval_rhs_t_quantile_def np_repeat_eval)
  have l0: "solver_loop (rhs_value_equal quantile_table ?k0) [Py 0] NaN NaN = Some (Inr NaN)"
    by (subst solver_loop.simps) (simp add: fle_def)
  have run0: "get_min_sample_sizes (rhs_value_equal quantile_table) ?k0 = Some (Inr NaN)"
    using r0 e0 l0 by (simp add: get_min_sample_sizes_def)
  from run1 run0 r0 show ?thesis
    by (simp add: get_min_sample_sizes_equal_def fle_def)
qed

section \<open>The Welch-Satterthwaite function validates nothing\<close>








section \<open>The ratio scenario\<close>

lemma get_min_sample_sizes_cong:
  assumes "rhs_func kw = rhs_func' kw'" "kw_s_squared kw = kw_s_squared kw'"
  shows "get_min_sample_sizes rhs_func kw = get_min_sample_sizes rhs_func' kw'"
  unfolding get_min_sample_sizes_def assms by (rule refl)

lemma get_min_sample_sizes_no_error:
  assumes "\<forall>nu. \<exists>r. rhs_func kw nu = Inr r"
  shows "get_min_sample_sizes rhs_func kw \<noteq> Some (Inl e)"
proof
  assume run: "get_min_sample_sizes rhs_func kw = Some (Inl e)"
  have no_eval: "eval_rhs_t_quantile (rhs_func kw) (kw_s_squared kw) n \<noteq> Inl e'" for n e'
    using eval_rhs_t_quantile_Inl[of "rhs_func kw" "kw_s_squared kw" n e'] assms
    by (metis Inl_Inr_False)
  from get_min_sample_sizes_Some_D[OF run] assms no_eval obtain r0 rt where
    "solver_loop (rhs_func kw) (kw_s_squared kw) (np_ceil r0) rt = Some (Inl e)"
    by (metis Inl_Inr_False)
  from solver_loop_Some_D[OF this] no_eval show False by auto
qed

lemma ratio_scaled_nonempty:
  "rat \<noteq> [] \<Longrightarrow>
     ratio_scaled s rat
       = broadcast_div (map (\<lambda>x. fmul (val x) (hd (map val rat))) s) (map val rat)"
  by (cases rat) (simp_all add: ratio_scaled_def)

lemma rhs_value_ratioed_Inr:
  assumes "ratio_scaled (kw_s_squared kw) (kw_ratio kw) = Inr ws"
  shows "\<exists>r. rhs_value_ratioed st kw nu = Inr r"
  using assms by (simp add: rhs_value_ratioed_def)

lemma ratio_scaled_broadcast:
  assumes "rat \<noteq> []" "length rat = length s \<or> length s = 1 \<or> length rat = 1"
  shows "\<exists>ws. ratio_scaled s rat = Inr ws"
  using assms by (auto simp: ratio_scaled_nonempty broadcast_div_def)

lemma ratio_scaled_mismatch:
  assumes "rat \<noteq> []" "length rat \<noteq> length s" "length s \<noteq> 1" "length rat \<noteq> 1"
  shows "ratio_scaled s rat = Inl ValueError"
  using assms by (auto simp: ratio_scaled_nonempty broadcast_div_def)


section \<open>Claims about the ratio scenario\<close>

text \<open>
  C8. \<open>get_min_sample_sizes_ratioed\<close> raises the AssertionError with the message
  "Please provide the ratio of at least one group" when the ratio vector is empty,
  before anything is computed. It has no check of its own that the ratio vector is
  as long as \<open>s_squared\<close>: when the lengths differ and neither is 1, the first
  evaluation of the right-hand side raises NumPy's ValueError (the shapes cannot be
  broadcast); when one of the two lengths is 1, or the lengths agree, the right-hand
  side is computed by broadcasting and the call raises nothing.
\<close>

theorem ratioed_length_checks:
  "(rat = [] \<longrightarrow>
      get_min_sample_sizes_ratioed st s_sq rat th significance_level min_power
        = Some (Inl (AssertionError ''Please provide the ratio of at least one group'')))
   \<and> (rat \<noteq> [] \<and> length rat \<noteq> length s_sq \<and> length s_sq \<noteq> 1 \<and> length rat \<noteq> 1 \<longrightarrow>
      get_min_sample_sizes_ratioed st s_sq rat th significance_level min_power
        = Some (Inl ValueError))
   \<and> (rat \<noteq> [] \<and> (length rat = length s_sq \<or> length s_sq = 1 \<or> length rat = 1) \<longrightarrow>
      (\<forall>e. get_min_sample_sizes_ratioed st s_sq rat th significance_level min_power
        \<noteq> Some (Inl e)))"
proof (intro conjI impI allI)
  assume "rat = []"
  then show "get_min_sample_sizes_ratioed st s_sq rat th significance_level min_power
        = Some (Inl (AssertionError ''Please provide the ratio of at least one group''))"
    by (simp add: get_min_sample_sizes_ratioed_def)
next
  assume a: "rat \<noteq> [] \<and> length rat \<noteq> length s_sq \<and> length s_sq \<noteq> 1 \<and> length rat \<noteq> 1"
  then have "ratio_scaled s_sq rat = Inl ValueError"
    by (intro ratio_scaled_mismatch) simp_all
  with a show "get_min_sample_sizes_ratioed st s_sq rat th significance_level min_power
        = Some (Inl ValueError)"
    by (simp add: get_min_sample_sizes_ratioed_def get_min_sample_sizes_def
        rhs_value_ratioed_def)
next
  fix e
  let ?kw = "\<lparr>kw_s_squared = s_sq, kw_theta = th,
      kw_significance_level = significance_level, kw_min_power = min_power, kw_ratio = rat\<rparr>"
  assume a: "rat \<noteq> [] \<and> (length rat = length s_sq \<or> length s_sq = 1 \<or> length rat = 1)"
  then obtain ws where "ratio_scaled s_sq rat = Inr ws"
    using ratio_scaled_broadcast[of rat s_sq] by blast
  then have "\<forall>nu. \<exists>r. rhs_value_ratioed st ?kw nu = Inr r"
    by (simp add: rhs_value_ratioed_Inr)
  then have "get_min_sample_sizes (rhs_value_ratioed st) ?kw \<noteq> Some (Inl e)"
    by (rule get_min_sample_sizes_no_error)
  with a show "get_min_sample_sizes_ratioed st s_sq rat th significance_level min_power
        \<noteq> Some (Inl e)"
    by (simp add: get_min_sample_sizes_ratioed_def)
qed

theorem ratioed_length_checks_witness:
  "get_min_sample_sizes_ratioed quantile_table [Py 1, Py 1] [] 1 (5 / 100) (8 / 10)
     = Some (Inl (AssertionError ''Please provide the ratio of at least one group''))
   \<and> get_min_sample_sizes_ratioed quantile_table [Py 1, Py 1, Py 1] [Py 1, Py 1] 1 (5 / 100) (8 / 10)
     = Some (Inl ValueError)
   \<and> (\<forall>e. get_min_sample_sizes_ratioed quantile_table [Py 1] [Py 1, Py 1] 1 (5 / 100) (8 / 10)
     \<noteq> Some (Inl e))"
  using ratioed_length_checks[of "[]" quantile_table "[Py 1, Py 1]" 1 "5 / 100" "8 / 10"]
    ratioed_length_checks[of "[Py 1, Py 1]" quantile_table "[Py 1, Py 1, Py 1]" 1 "5 / 100" "8 / 10"]
    ratioed_length_checks[of "[Py 1, Py 1]" quantile_table "[Py 1]" 1 "5 / 100" "8 / 10"]
  by simp

text \<open>
  Two groups and a ratio vector of length 1: the call returns a sample size.
\<close>

theorem ratioed_length_checks_counterexample:
  "get_min_sample_sizes_ratioed quantile_table [Py 1, Py 1] [Py 1] 1 (5 / 100) (8 / 10)
     = Some (Inr (Fin 14))"
proof -
  let ?kw = "\<lparr>kw_s_squared = [Py 1, Py 1], kw_theta = 1, kw_significance_level = 5 / 100,
        kw_min_power = 8 / 10\<rparr>"
  let ?kr = "\<lparr>kw_s_squared = [Py 1, Py 1], kw_theta = 1, kw_significance_level = 5 / 100,
        kw_min_power = 8 / 10, kw_ratio = [Py 1]\<rparr>"
  have "rhs_value_ratioed quantile_table ?kr nu = rhs_value_equal quantile_table ?kw nu" for nu
    by (simp add: rhs_value_ratioed_def rhs_value_equal_def ratio_scaled_def broadcast_div_def
        float_eval)
  then have "rhs_value_ratioed quantile_table ?kr = rhs_value_equal quantile_table ?kw"
    by (rule ext)
  then have "get_min_sample_sizes (rhs_value_ratioed quantile_table) ?kr
      = get_min_sample_sizes (rhs_value_equal quantile_table) ?kw"
    by (rule get_min_sample_sizes_cong) simp
  with run_equal_unit show ?thesis
    by (simp add: get_min_sample_sizes_ratioed_def)
qed

text \<open>
  C6. With at least one group and a ratio vector that has one entry per group, all
  entries being the same number \<open>c\<close> other than 0 (built-in numbers or float64
  values), \<open>get_min_sample_sizes_ratioed\<close> gives what \<open>get_min_sample_sizes_equal\<close>
  gives for the same variances, \<open>theta\<close>, significance level and power: the same
  \<open>n_min\<close>, and the same outcome when the solver fails or does not return. The
  products and quotients \<open>s * c / c\<close> are exact in this model.
\<close>


end
